theory Spec2Isabelle
  imports Complex_Main "HOL-Library.Word" "HOL-Library.Sublist"
begin

section \<open>Values shared by the sniffer and the API\<close>

text \<open>
  Python exceptions are values. Only subclasses of \<^verbatim>\<open>Exception\<close> are modelled
  (an asynchronous \<^verbatim>\<open>KeyboardInterrupt\<close> is outside the model).
\<close>

datatype exn =
    KeyError string
  | IndexError
  | TypeError
  | ValueError
  | FileNotFoundError
  | RequestException
  | OtherException string

text \<open>
  The values a dict read from JSON holds under its keys.  A Python \<^verbatim>\<open>float\<close> is modelled
  by the real number it denotes; \<^verbatim>\<open>nan\<close> and the infinities are outside the model, and
  the rounding of float arithmetic is not modelled.  \<open>JOther\<close> stands for a list or a
  dict, whose content the code never reads.
\<close>

datatype jval =
    JNone
  | JBool bool
  | JInt int
  | JNum real
  | JStr string
  | JOther

text \<open>A log entry is a Python dict with string keys.\<close>

type_synonym log_entry = "string \<rightharpoonup> jval"

subsection \<open>Python's \<^verbatim>\<open>str\<close> of integers and lists, and the \<^verbatim>\<open>.4f\<close> format\<close>

definition digit :: "nat \<Rightarrow> char" where
  "digit n = ''0123456789'' ! n"


fun str_nat :: "nat \<Rightarrow> string" where
  "str_nat n = (if n < 10 then [digit n] else str_nat (n div 10) @ [digit (n mod 10)])"

declare str_nat.simps [simp del]

definition str_int :: "int \<Rightarrow> string" where
  "str_int i = (if i < 0 then ''-'' @ str_nat (nat (- i)) else str_nat (nat i))"

fun join_comma :: "string list \<Rightarrow> string" where
  "join_comma [] = ''''"
| "join_comma [s] = s"
| "join_comma (s # t # ss) = s @ '', '' @ join_comma (t # ss)"

definition str_int_list :: "int list \<Rightarrow> string" where
  "str_int_list xs = ''['' @ join_comma (map str_int xs) @ '']''"

text \<open>
  \<^verbatim>\<open>f'{x:.4f}'\<close>: the decimal expansion of the float's exact value, correctly rounded
  (ties to even) to four fractional digits, with a minus sign for a negative value.
\<close>

definition round_half_even :: "real \<Rightarrow> int" where
  "round_half_even x =
     (let f = \<lfloor>x\<rfloor>; d = x - of_int f
      in if d < 1 / 2 then f
         else if 1 / 2 < d then f + 1
         else if even f then f else f + 1)"

definition format_4f :: "real \<Rightarrow> string" where
  "format_4f x =
     (let q = nat (round_half_even (\<bar>x\<bar> * 10000));
          ip = q div 10000;
          fp = q mod 10000
      in (if x < 0 then ''-'' else '''') @ str_nat ip @ ''.'' @
         [digit (fp div 1000), digit (fp div 100 mod 10), digit (fp div 10 mod 10),
          digit (fp mod 10)])"


subsection \<open>\<^verbatim>\<open>base64.b64encode\<close>\<close>

definition b64_alphabet :: string where
  "b64_alphabet = ''ABCDEFGHIJKLMNOPQRSTUVWXYZabcdefghijklmnopqrstuvwxyz0123456789+/''"

definition b64_char :: "nat \<Rightarrow> char" where
  "b64_char n = b64_alphabet ! (n mod 64)"

fun b64_groups :: "nat list \<Rightarrow> string" where
  "b64_groups [] = []"
| "b64_groups [a] =
     [b64_char (a div 4), b64_char ((a mod 4) * 16), CHR ''='', CHR ''='']"
| "b64_groups [a, b] =
     [b64_char (a div 4), b64_char ((a mod 4) * 16 + b div 16),
      b64_char ((b mod 16) * 4), CHR ''='']"
| "b64_groups (a # b # c # bs) =
     [b64_char (a div 4), b64_char ((a mod 4) * 16 + b div 16),
      b64_char ((b mod 16) * 4 + c div 64), b64_char (c mod 64)] @ b64_groups bs"

definition b64encode :: "8 word list \<Rightarrow> string" where
  "b64encode bs = b64_groups (map unat bs)"

section \<open>The packet, as the capture library hands it over\<close>

text \<open>
  A captured packet: its capture time, its bytes (\<^verbatim>\<open>bytes(packet)\<close>; \<^verbatim>\<open>len(packet)\<close>
  is their number), and the parsed layers the code looks at: \<^verbatim>\<open>IP in packet\<close> is
  \<open>IP packet \<noteq> None\<close>, and likewise for TCP; UDP has no field that is read.
\<close>

datatype tcp_flag = FIN | SYN | RST | PSH | ACK | URG | ECE | CWR | NS

record tcp_layer =
  flags :: "tcp_flag set"

record ip_layer =
  src :: string
  dst :: string
  proto :: int
  ttl :: int

record packet =
  time :: real
  raw :: "8 word list"
  IP :: "ip_layer option"
  TCP :: "tcp_layer option"
  UDP :: bool

text \<open>\<^verbatim>\<open>str(packet[TCP].flags)\<close>: the letters of the flags that are set, lowest bit first.\<close>

definition flag_letters :: "(tcp_flag \<times> char) list" where
  "flag_letters =
     [(FIN, CHR ''F''), (SYN, CHR ''S''), (RST, CHR ''R''), (PSH, CHR ''P''), (ACK, CHR ''A''),
      (URG, CHR ''U''), (ECE, CHR ''E''), (CWR, CHR ''C''), (NS, CHR ''N'')]"

definition str_flags :: "tcp_flag set \<Rightarrow> string" where
  "str_flags fl = map snd (filter (\<lambda>(f, c). f \<in> fl) flag_letters)"

section \<open>backend/extractor.py\<close>

definition extract_features :: "packet \<Rightarrow> int list option" where
  "extract_features packet =
     (let features = [0, 0, 0, 0];
          features = features[1 := int (length (raw packet))]
      in case IP packet of
           Some ip_layer \<Rightarrow>
             (let features = features[2 := ttl ip_layer];
                  features = features[0 := proto ip_layer];
                  features =
                    (case TCP packet of
                       Some tcp_layer \<Rightarrow>
                         (let flags_count =
                                of_bool (SYN \<in> flags tcp_layer) + of_bool (ACK \<in> flags tcp_layer) +
                                of_bool (FIN \<in> flags tcp_layer) + of_bool (RST \<in> flags tcp_layer)
                          in features[3 := flags_count])
                     | None \<Rightarrow> if UDP packet then features[3 := 0] else features)
              in Some features)
         | None \<Rightarrow> None)"

definition packet_to_log_data :: "packet \<Rightarrow> int \<Rightarrow> real \<Rightarrow> log_entry" where
  "packet_to_log_data packet classification conf =
     (let log_data =
            [''timestamp'' \<mapsto> JNum (time packet),
             ''src_ip'' \<mapsto> JNone,
             ''dst_ip'' \<mapsto> JNone,
             ''protocol'' \<mapsto> JStr ''Other'',
             ''size'' \<mapsto> JInt (int (length (raw packet))),
             ''flags'' \<mapsto> JStr [],
             ''classification'' \<mapsto> JStr (if classification = 1 then ''Anomaly'' else ''Normal''),
             ''confidence'' \<mapsto> JStr (format_4f conf)]
      in case IP packet of
           Some ip_layer \<Rightarrow>
             (let log_data = log_data(''src_ip'' \<mapsto> JStr (src ip_layer));
                  log_data = log_data(''dst_ip'' \<mapsto> JStr (dst ip_layer));
                  log_data = log_data(''protocol'' \<mapsto> JInt (proto ip_layer))
              in case TCP packet of
                   Some tcp_layer \<Rightarrow>
                     (let log_data = log_data(''protocol'' \<mapsto> JStr ''TCP'')
                      in log_data(''flags'' \<mapsto> JStr (str_flags (flags tcp_layer))))
                 | None \<Rightarrow>
                     if UDP packet then log_data(''protocol'' \<mapsto> JStr ''UDP'') else log_data)
         | None \<Rightarrow> log_data)"

section \<open>backend/ml\_engine.py\<close>

text \<open>
  The unpickled classifier is opaque: two methods that return arrays or raise.  An object
  without these methods is one whose methods always raise.
\<close>

record sk_model =
  predict_fn :: "int list list \<Rightarrow> exn + int list"
  predict_proba_fn :: "int list list \<Rightarrow> exn + real list list"

text \<open>What \<^verbatim>\<open>pickle.load\<close> returned: a dict with a \<^verbatim>\<open>'model'\<close> key, or any other object.\<close>

datatype model_data = ModelDict sk_model | ModelObject sk_model

record MLEngine =
  model :: "sk_model option"

text \<open>\<^verbatim>\<open>_load_model\<close>; the argument is the outcome of opening and unpickling the file.\<close>

definition load_model :: "exn + model_data \<Rightarrow> MLEngine" where
  "load_model file =
     (case file of
        Inr (ModelDict m) \<Rightarrow> \<lparr>model = Some m\<rparr>
      | Inr (ModelObject m) \<Rightarrow> \<lparr>model = Some m\<rparr>
      | Inl FileNotFoundError \<Rightarrow> \<lparr>model = None\<rparr>
      | Inl e \<Rightarrow> \<lparr>model = None\<rparr>)"

text \<open>Indexing a sequence: a negative index counts from the end, out of range raises.\<close>

definition py_index :: "'a list \<Rightarrow> int \<Rightarrow> exn + 'a" where
  "py_index xs i =
     (if 0 \<le> i \<and> i < int (length xs) then Inr (xs ! nat i)
      else if i < 0 \<and> - int (length xs) \<le> i then Inr (xs ! nat (int (length xs) + i))
      else Inl IndexError)"

text \<open>The body of the \<^verbatim>\<open>try\<close> block of \<^verbatim>\<open>predict\<close>.\<close>

definition predict_try :: "sk_model \<Rightarrow> int list \<Rightarrow> exn + (int \<times> real)" where
  "predict_try m features =
     (let X = [features]
      in case predict_fn m X of
           Inl e \<Rightarrow> Inl e
         | Inr ys \<Rightarrow>
            (case py_index ys 0 of
               Inl e \<Rightarrow> Inl e
             | Inr classification \<Rightarrow>
                (case predict_proba_fn m X of
                   Inl e \<Rightarrow> Inl e
                 | Inr ps \<Rightarrow>
                    (case py_index ps 0 of
                       Inl e \<Rightarrow> Inl e
                     | Inr probabilities \<Rightarrow>
                        (case py_index probabilities classification of
                           Inl e \<Rightarrow> Inl e
                         | Inr conf \<Rightarrow> Inr (classification, conf))))))"

text \<open>\<^verbatim>\<open>try: ... except Exception as e: ...\<close>\<close>

definition try_except :: "exn + 'a \<Rightarrow> (exn \<Rightarrow> exn + 'a) \<Rightarrow> exn + 'a" where
  "try_except body handler = (case body of Inl e \<Rightarrow> handler e | Inr v \<Rightarrow> Inr v)"

text \<open>\<open>Inl\<close> is an exception that leaves \<^verbatim>\<open>predict\<close>.\<close>

definition predict :: "MLEngine \<Rightarrow> int list \<Rightarrow> exn + (int \<times> real)" where
  "predict self features =
     (case model self of
        None \<Rightarrow> Inr (0, 0.0)
      | Some m \<Rightarrow> try_except (predict_try m features) (\<lambda>e. Inr (0, 0.0)))"

section \<open>backend/sniffer.py\<close>

text \<open>
  The module's globals.  \<open>CONFIG\<close> is the settings dict.  Two further fields are not
  globals of the program but traces of the calls it makes: \<open>predict_calls\<close>, the feature
  vectors handed to \<^verbatim>\<open>ml_engine.predict\<close>, and \<open>posted\<close>, the payloads handed to
  \<^verbatim>\<open>requests.post\<close>, both in call order.  Console output is not modelled.
\<close>

record sniffer =
  CONFIG :: "string \<rightharpoonup> jval"
  ml_engine :: MLEngine
  LIVE_PACKETS :: "log_entry list"
  last_send_time :: real
  predict_calls :: "int list list"
  posted :: "log_entry list list"

definition BATCH_SIZE :: nat where
  "BATCH_SIZE = 10"

definition SEND_INTERVAL :: real where
  "SEND_INTERVAL = 1"

text \<open>
  \<^verbatim>\<open>confidence < sensitivity\<close> for a sensitivity read from the settings: a float
  compares with a float, an int or a bool, and raises on anything else.
\<close>

definition float_lt :: "real \<Rightarrow> jval \<Rightarrow> exn + bool" where
  "float_lt x v =
     (case v of
        JNum y \<Rightarrow> Inr (x < y)
      | JInt i \<Rightarrow> Inr (x < of_int i)
      | JBool b \<Rightarrow> Inr (x < of_bool b)
      | JStr s \<Rightarrow> Inl TypeError
      | JNone \<Rightarrow> Inl TypeError
      | JOther \<Rightarrow> Inl TypeError)"

text \<open>Step 3 of \<^verbatim>\<open>process_packet\<close> (lines 75 to 80): the sensitivity threshold.\<close>

definition apply_sensitivity :: "(string \<rightharpoonup> jval) \<Rightarrow> int \<Rightarrow> real \<Rightarrow> exn + (int \<times> real)" where
  "apply_sensitivity config classification conf =
     (let sensitivity = (case config ''sensitivity'' of None \<Rightarrow> JNum 0.5 | Some v \<Rightarrow> v)
      in if classification = 1 then
           (case float_lt conf sensitivity of
              Inl e \<Rightarrow> Inl e
            | Inr below \<Rightarrow> if below then Inr (0, 1.0 - conf) else Inr (classification, conf))
         else Inr (classification, conf))"

text \<open>\<open>Inl\<close> is an exception that leaves \<^verbatim>\<open>process_packet\<close>; no global has changed then.\<close>

definition process_packet :: "packet \<Rightarrow> sniffer \<Rightarrow> exn + sniffer" where
  "process_packet packet st =
     (case extract_features packet of
        None \<Rightarrow> Inr st
      | Some features \<Rightarrow>
         (let st = st\<lparr>predict_calls := predict_calls st @ [features]\<rparr>
          in case predict (ml_engine st) features of
               Inl e \<Rightarrow> Inl e
             | Inr (classification, conf) \<Rightarrow>
                (case apply_sensitivity (CONFIG st) classification conf of
                   Inl e \<Rightarrow> Inl e
                 | Inr (classification, conf) \<Rightarrow>
                    (let log_entry = packet_to_log_data packet classification conf;
                         log_entry = log_entry(''ml_features'' \<mapsto> JStr (str_int_list features));
                         log_entry = log_entry(''raw_data'' \<mapsto> JStr (b64encode (raw packet)))
                     in Inr (st\<lparr>LIVE_PACKETS := LIVE_PACKETS st @ [log_entry]\<rparr>)))))"

text \<open>
  \<^verbatim>\<open>sniff(prn=process_packet, store=0)\<close> over the packets captured, in order: the callback
  runs on each, and an exception of the callback ends the capture.
\<close>

fun sniff :: "packet list \<Rightarrow> sniffer \<Rightarrow> exn + sniffer" where
  "sniff [] st = Inr st"
| "sniff (packet # packets) st =
     (case process_packet packet st of
        Inl e \<Rightarrow> Inl e
      | Inr st' \<Rightarrow> sniff packets st')"

text \<open>
  \<^verbatim>\<open>send_traffic_batch\<close>, in its two parts.  The first runs under the lock: it returns
  \<open>None\<close> on an empty buffer, and otherwise the copy of the buffer and the globals with
  the buffer cleared.
\<close>

definition take_batch :: "sniffer \<Rightarrow> (log_entry list \<times> sniffer) option" where
  "take_batch st =
     (if LIVE_PACKETS st = [] then None
      else
        (let batch_to_send = LIVE_PACKETS st;
             st = st\<lparr>LIVE_PACKETS := []\<rparr>
         in Some (batch_to_send, st)))"

text \<open>
  The second part runs without the lock: the request, the handler of
  \<^verbatim>\<open>RequestException\<close>, and the assignment of \<^verbatim>\<open>last_send_time\<close>.  \<open>post\<close> is the outcome
  of \<^verbatim>\<open>requests.post\<close> followed by \<^verbatim>\<open>raise_for_status\<close> on a payload, \<open>now\<close> is
  \<^verbatim>\<open>time.time()\<close>.  The result is the globals afterwards and the exception that leaves
  the function, if any.
\<close>

definition deliver_batch ::
    "(log_entry list \<Rightarrow> exn + unit) \<Rightarrow> real \<Rightarrow> log_entry list \<Rightarrow> sniffer \<Rightarrow> sniffer \<times> exn option" where
  "deliver_batch post now batch_to_send st =
     (let st = st\<lparr>posted := posted st @ [batch_to_send]\<rparr>
      in case post batch_to_send of
           Inr u \<Rightarrow> (st\<lparr>last_send_time := now\<rparr>, None)
         | Inl RequestException \<Rightarrow> (st\<lparr>last_send_time := now\<rparr>, None)
         | Inl e \<Rightarrow> (st, Some e))"

text \<open>The whole function, when no packet is captured while the request is in flight.\<close>

definition send_traffic_batch ::
    "(log_entry list \<Rightarrow> exn + unit) \<Rightarrow> real \<Rightarrow> sniffer \<Rightarrow> sniffer \<times> exn option" where
  "send_traffic_batch post now st =
     (case take_batch st of
        None \<Rightarrow> (st, None)
      | Some (batch_to_send, st) \<Rightarrow> deliver_batch post now batch_to_send st)"

text \<open>
  One round of the loop of \<^verbatim>\<open>api_sender_thread\<close>: a flush attempt, then the sleep of
  \<open>SEND_INTERVAL\<close> seconds (which changes nothing).
\<close>

definition api_sender_round ::
    "(log_entry list \<Rightarrow> exn + unit) \<Rightarrow> real \<Rightarrow> sniffer \<Rightarrow> sniffer \<times> exn option" where
  "api_sender_round post now st = send_traffic_batch post now st"

section \<open>generate\_model.py\<close>

definition SNIFFER_FEATURES :: "string list" where
  "SNIFFER_FEATURES =
     [''size'', ''ip_header_len'', ''ip_ttl'', ''sport'', ''dport'',
      ''tcp_syn_flag'', ''tcp_ack_flag'', ''tcp_window'',
      ''protocol_TCP'', ''protocol_UDP'', ''protocol_ICMP'']"

text \<open>
  The training matrix has one column per name of \<open>SNIFFER_FEATURES\<close>, in that order
  (\<^verbatim>\<open>X_aligned = pd.DataFrame(0, index=df.index, columns=SNIFFER_FEATURES)\<close>).
\<close>

definition training_row_length :: nat where
  "training_row_length = length SNIFFER_FEATURES"

text \<open>The order the docstring of \<^verbatim>\<open>extract_features\<close> names for its four fields.\<close>

definition extractor_feature_order :: "string list" where
  "extractor_feature_order = [''protocol'', ''length'', ''ttl'', ''flags_count'']"

section \<open>backend/api.py\<close>

text \<open>An alert is the dict literal that \<^verbatim>\<open>ingest_packet\<close> builds: its keys are fixed.\<close>

record alert =
  alert_id :: int
  packet_id :: int
  timestamp :: jval
  src_ip :: jval
  attack_type :: string
  confidence :: jval
  status :: string

text \<open>The module's globals.\<close>

record store =
  LIVE_PACKET_LOG :: "log_entry list"
  ALERT_HISTORY :: "alert list"
  LAST_PACKET_ID :: int

definition MAX_LIVE_PACKETS :: nat where
  "MAX_LIVE_PACKETS = 50"

definition empty_store :: store where
  "empty_store = \<lparr>LIVE_PACKET_LOG = [], ALERT_HISTORY = [], LAST_PACKET_ID = 0\<rparr>"

text \<open>\<^verbatim>\<open>xs[-n:]\<close> for \<open>0 < n\<close>: the last \<open>n\<close> elements, or all of them when there are fewer.\<close>

definition last_n :: "nat \<Rightarrow> 'a list \<Rightarrow> 'a list" where
  "last_n n xs = drop (length xs - n) xs"

definition get_live_logs :: "store \<Rightarrow> log_entry list" where
  "get_live_logs st = LIVE_PACKET_LOG st"

definition get_alert_history :: "store \<Rightarrow> alert list" where
  "get_alert_history st = filter (\<lambda>alert. status alert = ''New'') (ALERT_HISTORY st)"

text \<open>
  The JSON body of an ingest request, as a typed view: a dict that may hold a list of log
  entries under \<^verbatim>\<open>'logs'\<close> (\<open>logs\<close> is \<open>None\<close> when the key is absent) and holds the
  values \<open>items\<close> under its other keys.  Bodies of any other shape are outside the model.
\<close>

record ingest_body =
  logs :: "log_entry list option"
  items :: "string \<rightharpoonup> jval"

text \<open>
  The random module: for the \<open>i\<close>-th record of a request, \<open>fst (rnd i)\<close> is the value of
  \<^verbatim>\<open>random.random()\<close> and \<open>snd (rnd i)\<close> selects the element \<^verbatim>\<open>random.choice\<close> returns.
\<close>

type_synonym rnd = "nat \<Rightarrow> real \<times> nat"

definition ATTACK_TYPES :: "string list" where
  "ATTACK_TYPES = [''DDoS'', ''Port Scan'', ''Brute Force'']"

text \<open>The alert dict literal; its values are evaluated in the order written.\<close>

definition new_alert :: "real \<times> nat \<Rightarrow> log_entry \<Rightarrow> store \<Rightarrow> exn + alert" where
  "new_alert draw log_entry st =
     (case log_entry ''timestamp'' of
        None \<Rightarrow> Inl (KeyError ''timestamp'')
      | Some ts \<Rightarrow>
         (case log_entry ''src_ip'' of
            None \<Rightarrow> Inl (KeyError ''src_ip'')
          | Some ip \<Rightarrow>
              Inr \<lparr>alert_id = int (length (ALERT_HISTORY st)) + 1,
                   packet_id = LAST_PACKET_ID st,
                   timestamp = ts,
                   src_ip = ip,
                   attack_type = ATTACK_TYPES ! (snd draw mod length ATTACK_TYPES),
                   confidence = (case log_entry ''confidence'' of None \<Rightarrow> JStr ''0.90'' | Some c \<Rightarrow> c),
                   status = ''New''\<rparr>))"

text \<open>
  The loop of the batch branch.  The globals are mutated as the loop goes, so they are
  returned also when a record raises.
\<close>

fun ingest_loop :: "rnd \<Rightarrow> nat \<Rightarrow> log_entry list \<Rightarrow> store \<Rightarrow> int list \<Rightarrow> store \<times> (exn + int list)" where
  "ingest_loop rnd i [] st ingested_ids = (st, Inr ingested_ids)"
| "ingest_loop rnd i (log_entry # rest) st ingested_ids =
     (let st = st\<lparr>LAST_PACKET_ID := LAST_PACKET_ID st + 1\<rparr>;
          log_entry = log_entry(''id'' \<mapsto> JInt (LAST_PACKET_ID st));
          st = st\<lparr>LIVE_PACKET_LOG := LIVE_PACKET_LOG st @ [log_entry]\<rparr>;
          ingested_ids = ingested_ids @ [LAST_PACKET_ID st]
      in if fst (rnd i) < 0.5 then
           (case new_alert (rnd i) log_entry st of
              Inl e \<Rightarrow> (st, Inl e)
            | Inr a \<Rightarrow>
                ingest_loop rnd (i + 1) rest
                  (st\<lparr>ALERT_HISTORY := ALERT_HISTORY st @ [a]\<rparr>) ingested_ids)
         else ingest_loop rnd (i + 1) rest st ingested_ids)"

text \<open>The responses of \<^verbatim>\<open>ingest_packet\<close>: 201 with the ids, 201 with the id, 400.\<close>

datatype response =
    Batch_ingested "int list"
  | Packet_ingested int
  | Ingestion_failed exn

definition ingest_packet :: "rnd \<Rightarrow> ingest_body \<Rightarrow> store \<Rightarrow> response \<times> store" where
  "ingest_packet rnd data st =
     (case logs data of
        Some entries \<Rightarrow>
          (case ingest_loop rnd 0 entries st [] of
             (st, Inl e) \<Rightarrow> (Ingestion_failed e, st)
           | (st, Inr ingested_ids) \<Rightarrow>
               (let st = st\<lparr>LIVE_PACKET_LOG := last_n MAX_LIVE_PACKETS (LIVE_PACKET_LOG st)\<rparr>
                in (Batch_ingested ingested_ids, st)))
      | None \<Rightarrow>
          (let packet_data = items data;
               st = st\<lparr>LAST_PACKET_ID := LAST_PACKET_ID st + 1\<rparr>;
               packet_data = packet_data(''id'' \<mapsto> JInt (LAST_PACKET_ID st));
               st = st\<lparr>LIVE_PACKET_LOG := LIVE_PACKET_LOG st @ [packet_data]\<rparr>;
               st = st\<lparr>LIVE_PACKET_LOG := last_n MAX_LIVE_PACKETS (LIVE_PACKET_LOG st)\<rparr>
           in if fst (rnd 0) < 0.5 then
                (case new_alert (rnd 0) packet_data st of
                   Inl e \<Rightarrow> (Ingestion_failed e, st)
                 | Inr a \<Rightarrow>
                     (Packet_ingested (LAST_PACKET_ID st),
                      st\<lparr>ALERT_HISTORY := ALERT_HISTORY st @ [a]\<rparr>))
              else (Packet_ingested (LAST_PACKET_ID st), st)))"

text \<open>Requests served one after the other; the \<open>k\<close>-th request draws from \<open>rnds k\<close>.\<close>

fun ingest_all :: "(nat \<Rightarrow> rnd) \<Rightarrow> nat \<Rightarrow> ingest_body list \<Rightarrow> store \<Rightarrow> store" where
  "ingest_all rnds k [] st = st"
| "ingest_all rnds k (data # rest) st = ingest_all rnds (k + 1) rest (snd (ingest_packet (rnds k) data st))"

text \<open>\<^verbatim>\<open>alert.get('alert_id') == alert_id\<close>: an int against a value of the request body.\<close>

definition int_eq_jval :: "int \<Rightarrow> jval \<Rightarrow> bool" where
  "int_eq_jval i v =
     (case v of
        JInt j \<Rightarrow> i = j
      | JNum r \<Rightarrow> of_int i = r
      | JBool b \<Rightarrow> i = of_bool b
      | JStr s \<Rightarrow> False
      | JNone \<Rightarrow> False
      | JOther \<Rightarrow> False)"

text \<open>The loop of \<^verbatim>\<open>handle_alert_action\<close>: the first alert that matches, then \<^verbatim>\<open>break\<close>.\<close>

fun mark_processed :: "jval \<Rightarrow> alert list \<Rightarrow> alert list" where
  "mark_processed aid [] = []"
| "mark_processed aid (a # rest) =
     (if int_eq_jval (alert_id a) aid then a\<lparr>status := ''Processed''\<rparr> # rest
      else a # mark_processed aid rest)"

text \<open>
  \<^verbatim>\<open>handle_alert_action\<close> on a body that is a dict; \<^verbatim>\<open>data.get\<close> of an absent key is
  \<^verbatim>\<open>None\<close>.  The response is always the 200 message, so only the globals are returned.
\<close>

definition handle_alert_action :: "(string \<rightharpoonup> jval) \<Rightarrow> store \<Rightarrow> store" where
  "handle_alert_action data st =
     (let aid = (case data ''alert_id'' of None \<Rightarrow> JNone | Some v \<Rightarrow> v)
      in st\<lparr>ALERT_HISTORY := mark_processed aid (ALERT_HISTORY st)\<rparr>)"

section \<open>Concrete inputs\<close>

text \<open>A TCP SYN packet of 40 bytes (only the first bytes are spelled out), and an ARP frame.\<close>

definition syn_packet :: packet where
  "syn_packet =
     \<lparr>time = 1700000000,
      raw = [0x45, 0x00, 0x00, 0x28, 0x00, 0x01, 0x00, 0x00, 0x40, 0x06] @ replicate 30 0,
      IP = Some \<lparr>src = ''192.168.1.1'', dst = ''8.8.8.8'', proto = 6, ttl = 64\<rparr>,
      TCP = Some \<lparr>flags = {SYN}\<rparr>,
      UDP = False\<rparr>"

definition arp_packet :: packet where
  "arp_packet =
     \<lparr>time = 1700000001, raw = [0xFF, 0xFF, 0xFF, 0xFF, 0xFF, 0xFF], IP = None, TCP = None,
      UDP = False\<rparr>"

text \<open>A classifier that answers Anomaly with probability 0.3 on rows of four features.\<close>

definition timid_model :: sk_model where
  "timid_model =
     \<lparr>predict_fn = (\<lambda>X. if map length X = [4] then Inr [1] else Inl ValueError),
      predict_proba_fn = (\<lambda>X. if map length X = [4] then Inr [[0.7, 0.3]] else Inl ValueError)\<rparr>"

definition timid_sniffer :: sniffer where
  "timid_sniffer =
     \<lparr>CONFIG = [''sensitivity'' \<mapsto> JNum 0.5],
      ml_engine = \<lparr>model = Some timid_model\<rparr>,
      LIVE_PACKETS = [],
      last_send_time = 0,
      predict_calls = [],
      posted = []\<rparr>"

text \<open>A sniffer whose model file was not found.\<close>

definition degraded_sniffer :: sniffer where
  "degraded_sniffer =
     \<lparr>CONFIG = [''sensitivity'' \<mapsto> JNum 0.5],
      ml_engine = load_model (Inl FileNotFoundError),
      LIVE_PACKETS = [],
      last_send_time = 0,
      predict_calls = [],
      posted = []\<rparr>"

text \<open>A sink that refuses every request.\<close>

definition refusing_sink :: "log_entry list \<Rightarrow> exn + unit" where
  "refusing_sink batch = Inl RequestException"

section \<open>Notions used to state the properties of the store\<close>

text \<open>The entries \<open>es\<close> with the ids \<open>n + 1\<close>, \<open>n + 2\<close>, ... written under \<^verbatim>\<open>'id'\<close>, in order.\<close>

fun stamp :: "int \<Rightarrow> log_entry list \<Rightarrow> log_entry list" where
  "stamp n [] = []"
| "stamp n (e # es) = e(''id'' \<mapsto> JInt (n + 1)) # stamp (n + 1) es"

text \<open>A log entry has the keys the alert literal reads with \<^verbatim>\<open>[...]\<close>.\<close>

definition well_formed :: "log_entry \<Rightarrow> bool" where
  "well_formed e = (e ''timestamp'' \<noteq> None \<and> e ''src_ip'' \<noteq> None)"

text \<open>
  A request that carries the single record \<open>e\<close>: a batch of one, or the fallback form
  where the body is the record itself.
\<close>

definition carries :: "ingest_body \<Rightarrow> log_entry \<Rightarrow> bool" where
  "carries data e = (logs data = Some [e] \<or> (logs data = None \<and> items data = e))"

text \<open>The alert ids are \<open>1, 2, ...\<close> in list order, as \<^verbatim>\<open>len(ALERT_HISTORY) + 1\<close> assigns them.\<close>

definition alert_ids_in_order :: "store \<Rightarrow> bool" where
  "alert_ids_in_order st =
     (map alert_id (ALERT_HISTORY st) = [1..int (length (ALERT_HISTORY st))])"

text \<open>Concrete inputs for the store.\<close>

definition udp_entry :: log_entry where
  "udp_entry =
     [''timestamp'' \<mapsto> JNum 1700000002, ''src_ip'' \<mapsto> JStr ''10.0.0.7'',
      ''protocol'' \<mapsto> JStr ''UDP'', ''confidence'' \<mapsto> JStr ''0.9100'']"

definition always_alert :: rnd where
  "always_alert i = (0.25, i)"

definition never_alert :: rnd where
  "never_alert i = (0.75, 0)"

definition two_alerts :: store where
  "two_alerts =
     \<lparr>LIVE_PACKET_LOG = [],
      ALERT_HISTORY =
        [\<lparr>alert_id = 1, packet_id = 1, timestamp = JNum 1700000002, src_ip = JStr ''10.0.0.7'',
          attack_type = ''DDoS'', confidence = JStr ''0.9100'', status = ''New''\<rparr>,
         \<lparr>alert_id = 2, packet_id = 2, timestamp = JNum 1700000003, src_ip = JStr ''10.0.0.8'',
          attack_type = ''Port Scan'', confidence = JStr ''0.7700'', status = ''New''\<rparr>],
      LAST_PACKET_ID = 2\<rparr>"

section \<open>Lemmas about the sniffer\<close>

subsection \<open>Formatting\<close>







subsection \<open>The extractor\<close>

lemma extract_features_None: "IP packet = None \<Longrightarrow> extract_features packet = None"
  by (simp add: extract_features_def)

lemma extract_features_length:
  "extract_features packet = Some features \<Longrightarrow> length features = 4"
  by (auto simp: extract_features_def Let_def split: option.splits if_splits)

lemma extract_features_Some_iff:
  "(\<exists>features. extract_features packet = Some features) \<longleftrightarrow> IP packet \<noteq> None"
  by (auto simp: extract_features_def Let_def split: option.splits)

lemma extract_features_syn: "extract_features syn_packet = Some [6, 40, 64, 1]"
  by (simp add: extract_features_def syn_packet_def)



subsection \<open>The classifier\<close>

lemma predict_no_model: "model self = None \<Longrightarrow> predict self features = Inr (0, 0)"
  by (simp add: predict_def)

lemma predict_failure:
  "model self = Some m \<Longrightarrow> predict_try m features = Inl e \<Longrightarrow> predict self features = Inr (0, 0)"
  by (simp add: predict_def try_except_def)

lemma predict_success:
  "model self = Some m \<Longrightarrow> predict_try m features = Inr r \<Longrightarrow> predict self features = Inr r"
  by (simp add: predict_def try_except_def)

lemma predict_returns: "\<exists>label c. predict self features = Inr (label, c)"
proof (cases "model self")
  case None
  then show ?thesis by (simp add: predict_no_model)
next
  case (Some m)
  show ?thesis
  proof (cases "predict_try m features")
    case (Inl e)
    with Some show ?thesis by (simp add: predict_failure)
  next
    case (Inr r)
    with Some have "predict self features = Inr (fst r, snd r)" by (simp add: predict_success)
    then show ?thesis by blast
  qed
qed

lemma load_model_failed: "model (load_model (Inl e)) = None"
  by (cases e) (simp_all add: load_model_def)

lemma predict_try_raises:
  "predict_fn m [features] = Inl e \<Longrightarrow> predict_try m features = Inl e"
  by (simp add: predict_try_def)


lemma timid_predict_empty: "predict_try timid_model [] = Inl ValueError"
  by (simp add: predict_try_def timid_model_def)

subsection \<open>The threshold\<close>



lemma process_packet_non_ip: "IP packet = None \<Longrightarrow> process_packet packet st = Inr st"
  by (simp add: process_packet_def extract_features_None)

lemma sniff_non_ip: "\<forall>p\<in>set packets. IP p = None \<Longrightarrow> sniff packets st = Inr st"
  by (induction packets) (simp_all add: process_packet_non_ip)

lemma process_packet_effect:
  assumes "process_packet packet st = Inr st'"
  shows "posted st' = posted st \<and> last_send_time st' = last_send_time st \<and>
         CONFIG st' = CONFIG st \<and> ml_engine st' = ml_engine st \<and>
         length (LIVE_PACKETS st') = length (LIVE_PACKETS st) + (if IP packet = None then 0 else 1)"
proof (cases "extract_features packet")
  case None
  then have "IP packet = None" using extract_features_Some_iff [of packet] by auto
  with assms show ?thesis by (simp add: process_packet_non_ip)
next
  case (Some features)
  then have ip: "IP packet \<noteq> None" using extract_features_Some_iff [of packet] by auto
  from assms Some show ?thesis
    by (auto simp: process_packet_def Let_def ip split: sum.splits prod.splits)
qed

lemma sniff_effect:
  "sniff packets st = Inr st' \<Longrightarrow>
     posted st' = posted st \<and> last_send_time st' = last_send_time st \<and>
     CONFIG st' = CONFIG st \<and> ml_engine st' = ml_engine st \<and>
     length (LIVE_PACKETS st') =
       length (LIVE_PACKETS st) + length (filter (\<lambda>p. IP p \<noteq> None) packets)"
proof (induction packets arbitrary: st)
  case Nil
  then show ?case by simp
next
  case (Cons p ps)
  from Cons.prems obtain st1 where 1: "process_packet p st = Inr st1" and 2: "sniff ps st1 = Inr st'"
    by (auto split: sum.splits)
  from process_packet_effect [OF 1] Cons.IH [OF 2] show ?case by auto
qed

lemma process_packet_degraded:
  assumes "model (ml_engine st) = None" and "IP packet \<noteq> None"
  shows "\<exists>st'. process_packet packet st = Inr st'"
proof -
  from assms(2) obtain features where f: "extract_features packet = Some features"
    using extract_features_Some_iff [of packet] by auto
  have p: "predict (ml_engine (st\<lparr>predict_calls := predict_calls st @ [features]\<rparr>)) features = Inr (0, 0)"
    using assms(1) by (simp add: predict_no_model)
  have a: "apply_sensitivity (CONFIG (st\<lparr>predict_calls := predict_calls st @ [features]\<rparr>)) 0 0 = Inr (0, 0)"
    by (simp add: apply_sensitivity_def)
  show ?thesis using f p a by (simp add: process_packet_def)
qed

lemma sniff_degraded:
  "model (ml_engine st) = None \<Longrightarrow> \<forall>p\<in>set packets. IP p \<noteq> None \<Longrightarrow> \<exists>st'. sniff packets st = Inr st'"
proof (induction packets arbitrary: st)
  case Nil
  then show ?case by simp
next
  case (Cons p ps)
  from Cons.prems obtain st1 where 1: "process_packet p st = Inr st1"
    using process_packet_degraded [of st p] by auto
  from process_packet_effect [OF 1] Cons.prems have "model (ml_engine st1) = None" by simp
  from Cons.IH [OF this] Cons.prems 1 show ?case by simp
qed

subsection \<open>The flush\<close>

lemma send_traffic_batch_empty:
  "LIVE_PACKETS st = [] \<Longrightarrow> send_traffic_batch post now st = (st, None)"
  by (simp add: send_traffic_batch_def take_batch_def)

lemma send_traffic_batch_buffer:
  "LIVE_PACKETS (fst (send_traffic_batch post now st)) = []"
  by (simp add: send_traffic_batch_def take_batch_def deliver_batch_def Let_def
      split: sum.splits exn.splits)

lemma send_traffic_batch_posted:
  "LIVE_PACKETS st \<noteq> [] \<Longrightarrow>
     posted (fst (send_traffic_batch post now st)) = posted st @ [LIVE_PACKETS st]"
  by (simp add: send_traffic_batch_def take_batch_def deliver_batch_def Let_def
      split: sum.splits exn.splits)

lemma send_traffic_batch_refused:
  "post (LIVE_PACKETS st) = Inl RequestException \<Longrightarrow> snd (send_traffic_batch post now st) = None"
  by (simp add: send_traffic_batch_def take_batch_def deliver_batch_def Let_def)

lemma deliver_batch_buffer:
  "LIVE_PACKETS (fst (deliver_batch post now batch st)) = LIVE_PACKETS st"
  by (simp add: deliver_batch_def Let_def split: sum.splits exn.splits)

lemma deliver_batch_posted:
  "posted (fst (deliver_batch post now batch st)) = posted st @ [batch]"
  by (simp add: deliver_batch_def Let_def split: sum.splits exn.splits)

section \<open>Claims about the sniffer\<close>




text \<open>
  C3.  \<open>predict\<close> always returns a pair and never lets an exception out.  It returns
  \<open>(0, 0.0)\<close> when there is no model, which is the case whenever loading the artifact
  raised, and when anything in the prediction raises: the model's \<open>predict\<close>, its
  \<open>predict_proba\<close>, or an index out of range.
\<close>

theorem predict_never_raises:
  "(\<exists>label c. predict self features = Inr (label, c)) \<and>
   (model self = None \<longrightarrow> predict self features = Inr (0, 0)) \<and>
   (\<forall>e. predict (load_model (Inl e)) features = Inr (0, 0)) \<and>
   (\<forall>m e. model self = Some m \<and> predict_try m features = Inl e \<longrightarrow>
      predict self features = Inr (0, 0)) \<and>
   (\<forall>m e. model self = Some m \<and> predict_fn m [features] = Inl e \<longrightarrow>
      predict self features = Inr (0, 0))"
  using predict_returns [of self features]
  by (auto simp: predict_no_model load_model_failed predict_failure predict_try_raises)

theorem predict_never_raises_witness:
  "predict \<lparr>model = Some timid_model\<rparr> [] = Inr (0, 0) \<and>
   predict (load_model (Inl FileNotFoundError)) [6, 40, 64, 1] = Inr (0, 0)"
proof -
  have m: "model \<lparr>model = Some timid_model\<rparr> = Some timid_model" by simp
  from predict_never_raises [of "\<lparr>model = Some timid_model\<rparr>" "[]"] m timid_predict_empty
  have 1: "predict \<lparr>model = Some timid_model\<rparr> [] = Inr (0, 0)" by blast
  from predict_never_raises [of "\<lparr>model = None\<rparr>" "[6, 40, 64, 1]"]
  have 2: "predict (load_model (Inl FileNotFoundError)) [6, 40, 64, 1] = Inr (0, 0)" by blast
  from 1 2 show ?thesis by simp
qed

text \<open>
  C7.  A packet without an IP layer gives no feature vector, and \<open>process_packet\<close> returns
  at once with every global as it was: nothing is classified, nothing is appended to the
  buffer, nothing is posted.  The same holds for a whole capture of such packets.
\<close>

theorem non_ip_packet_skipped:
  "(IP packet = None \<longrightarrow> extract_features packet = None \<and> process_packet packet st = Inr st) \<and>
   ((\<forall>p\<in>set packets. IP p = None) \<longrightarrow> sniff packets st = Inr st)"
  by (simp add: extract_features_None process_packet_non_ip sniff_non_ip)

theorem non_ip_packet_skipped_witness:
  "extract_features arp_packet = None \<and>
   process_packet arp_packet timid_sniffer = Inr timid_sniffer \<and>
   sniff [arp_packet, arp_packet] timid_sniffer = Inr timid_sniffer"
proof -
  have ip: "IP arp_packet = None" by (simp add: arp_packet_def)
  then have all: "\<forall>p\<in>set [arp_packet, arp_packet]. IP p = None" by simp
  from non_ip_packet_skipped [of arp_packet timid_sniffer "[arp_packet, arp_packet]"] ip all
  show ?thesis by blast
qed




text \<open>
  C2.  Every vector \<open>extract_features\<close> returns has four fields, in the order its docstring
  names; the training script builds rows of the eleven columns of \<open>SNIFFER_FEATURES\<close>.
  The two never agree, in length or in names.
\<close>

theorem feature_vector_differs_from_training_row:
  "extract_features packet = Some features \<Longrightarrow>
     length features = 4 \<and> length features = length extractor_feature_order \<and>
     training_row_length = 11 \<and> length features \<noteq> training_row_length \<and>
     extractor_feature_order \<noteq> SNIFFER_FEATURES"
  by (simp add: extract_features_length training_row_length_def SNIFFER_FEATURES_def
      extractor_feature_order_def)

theorem feature_vector_differs_from_training_row_witness:
  "extract_features syn_packet = Some [6, 40, 64, 1] \<and>
   length [6, 40, 64, 1 :: int] \<noteq> training_row_length"
  using feature_vector_differs_from_training_row [OF extract_features_syn] extract_features_syn
  by simp

text \<open>
  C5, as the claim states it, fails: 25 packets captured with no round of the sender
  thread in between leave 25 records in the buffer and no flush attempt, although
  \<open>BATCH_SIZE\<close> is 10.
\<close>

theorem size_trigger_counterexample:
  "BATCH_SIZE = 10 \<and>
   (case sniff (replicate 25 syn_packet) degraded_sniffer of
      Inl e \<Rightarrow> False
    | Inr st' \<Rightarrow> length (LIVE_PACKETS st') = 25 \<and> length (posted st') = 0 \<and>
        \<not> 2 \<le> length (posted st'))"
proof -
  have m: "model (ml_engine degraded_sniffer) = None"
    by (simp add: degraded_sniffer_def load_model_failed)
  have ip: "\<forall>p\<in>set (replicate 25 syn_packet). IP p \<noteq> None"
    by (simp add: syn_packet_def)
  from sniff_degraded [OF m ip] obtain st' where
    s: "sniff (replicate 25 syn_packet) degraded_sniffer = Inr st'" by blast
  have f: "filter (\<lambda>p. IP p \<noteq> None) (replicate 25 syn_packet) = replicate 25 syn_packet"
    using ip by (simp only: filter_True)
  have z: "posted degraded_sniffer = []" "LIVE_PACKETS degraded_sniffer = []"
    by (simp_all add: degraded_sniffer_def)
  from sniff_effect [OF s] f z have "length (LIVE_PACKETS st') = 25 \<and> posted st' = []"
    by simp
  with s show ?thesis by (simp add: BATCH_SIZE_def)
qed

text \<open>
  C5, amended.  The buffer is flushed only by a round of the sender thread, once per
  \<open>SEND_INTERVAL\<close>: capturing packets, however many, only appends (one record per IP
  packet) and attempts no flush, and \<open>BATCH_SIZE\<close> is consulted nowhere.  A round on an
  empty buffer does nothing; a round on a non-empty buffer posts the whole buffer as one
  batch and leaves the buffer empty.
\<close>

theorem flush_only_on_timer:
  "(sniff packets st = Inr st' \<longrightarrow>
      posted st' = posted st \<and>
      length (LIVE_PACKETS st') =
        length (LIVE_PACKETS st) + length (filter (\<lambda>p. IP p \<noteq> None) packets)) \<and>
   (LIVE_PACKETS st = [] \<longrightarrow> api_sender_round post now st = (st, None)) \<and>
   (LIVE_PACKETS st \<noteq> [] \<longrightarrow>
      posted (fst (api_sender_round post now st)) = posted st @ [LIVE_PACKETS st] \<and>
      LIVE_PACKETS (fst (api_sender_round post now st)) = [])"
  using sniff_effect [of packets st st']
  by (simp add: api_sender_round_def send_traffic_batch_empty send_traffic_batch_buffer
      send_traffic_batch_posted)

theorem flush_only_on_timer_witness:
  "\<exists>st'. sniff (replicate 25 syn_packet) degraded_sniffer = Inr st' \<and>
      posted st' = [] \<and> length (LIVE_PACKETS st') = 25 \<and>
      map length (posted (fst (api_sender_round refusing_sink 1 st'))) = [25] \<and>
      LIVE_PACKETS (fst (api_sender_round refusing_sink 1 st')) = []"
proof -
  have m: "model (ml_engine degraded_sniffer) = None"
    by (simp add: degraded_sniffer_def load_model_failed)
  have ip: "\<forall>p\<in>set (replicate 25 syn_packet). IP p \<noteq> None"
    by (simp add: syn_packet_def)
  from sniff_degraded [OF m ip] obtain st' where
    s: "sniff (replicate 25 syn_packet) degraded_sniffer = Inr st'" by blast
  have f: "filter (\<lambda>p. IP p \<noteq> None) (replicate 25 syn_packet) = replicate 25 syn_packet"
    using ip by (simp only: filter_True)
  have z: "posted degraded_sniffer = []" "LIVE_PACKETS degraded_sniffer = []"
    by (simp_all add: degraded_sniffer_def)
  from flush_only_on_timer [of "replicate 25 syn_packet" degraded_sniffer st' refusing_sink 1]
    s f z
  have 1: "posted st' = []" and 2: "length (LIVE_PACKETS st') = 25" by simp_all
  from 2 have ne: "LIVE_PACKETS st' \<noteq> []" by auto
  from flush_only_on_timer [of "[]" st' st' refusing_sink 1] ne 1 2
  have 3: "map length (posted (fst (api_sender_round refusing_sink 1 st'))) = [25]"
    and 4: "LIVE_PACKETS (fst (api_sender_round refusing_sink 1 st')) = []" by simp_all
  show ?thesis by (rule exI [of _ st']) (intro conjI s 1 2 3 4)
qed

text \<open>
  C6.  A flush attempt on an empty buffer changes nothing and posts nothing.  After any
  flush attempt the buffer is empty, whatever the sink answered; a non-empty buffer is
  posted exactly once, as one batch; a refused or timed-out request raises nothing; and
  the next attempt, having an empty buffer, posts nothing: the batch is never retried.
  The part that runs after the lock is released, whatever the buffer holds by then,
  posts the batch once and leaves the buffer as it finds it: it puts nothing back.
\<close>

theorem flush_drops_batch:
  "(LIVE_PACKETS st = [] \<longrightarrow> send_traffic_batch post now st = (st, None)) \<and>
   LIVE_PACKETS (fst (send_traffic_batch post now st)) = [] \<and>
   (LIVE_PACKETS st \<noteq> [] \<longrightarrow>
      posted (fst (send_traffic_batch post now st)) = posted st @ [LIVE_PACKETS st]) \<and>
   (post (LIVE_PACKETS st) = Inl RequestException \<longrightarrow>
      snd (send_traffic_batch post now st) = None) \<and>
   send_traffic_batch post' now' (fst (send_traffic_batch post now st)) =
     (fst (send_traffic_batch post now st), None) \<and>
   LIVE_PACKETS (fst (deliver_batch post now batch st')) = LIVE_PACKETS st' \<and>
   posted (fst (deliver_batch post now batch st')) = posted st' @ [batch]"
  by (simp add: send_traffic_batch_empty send_traffic_batch_buffer send_traffic_batch_posted
      send_traffic_batch_refused deliver_batch_buffer deliver_batch_posted)

theorem flush_drops_batch_witness:
  "send_traffic_batch refusing_sink 5 timid_sniffer = (timid_sniffer, None) \<and>
   LIVE_PACKETS (fst (send_traffic_batch refusing_sink 5 (timid_sniffer\<lparr>LIVE_PACKETS := [Map.empty]\<rparr>))) = [] \<and>
   posted (fst (send_traffic_batch refusing_sink 5 (timid_sniffer\<lparr>LIVE_PACKETS := [Map.empty]\<rparr>))) = [[Map.empty]] \<and>
   snd (send_traffic_batch refusing_sink 5 (timid_sniffer\<lparr>LIVE_PACKETS := [Map.empty]\<rparr>)) = None"
proof -
  have e: "LIVE_PACKETS timid_sniffer = []" "posted timid_sniffer = []"
    by (simp_all add: timid_sniffer_def)
  from flush_drops_batch [of timid_sniffer refusing_sink 5] e
  have 1: "send_traffic_batch refusing_sink 5 timid_sniffer = (timid_sniffer, None)" by simp
  from flush_drops_batch [of "timid_sniffer\<lparr>LIVE_PACKETS := [Map.empty]\<rparr>" refusing_sink 5] e
  show ?thesis using 1 by (simp add: refusing_sink_def)
qed

section \<open>Lemmas about the store\<close>

subsection \<open>Ids and the window\<close>

lemma stamp_length: "length (stamp n es) = length es"
  by (induction es arbitrary: n) simp_all

lemma stamp_append: "stamp n (xs @ ys) = stamp n xs @ stamp (n + int (length xs)) ys"
  by (induction xs arbitrary: n) (simp_all add: add.assoc)

lemma stamp_upto:
  "stamp n es = map (\<lambda>(i, e). e(''id'' \<mapsto> JInt i)) (zip [n + 1..n + int (length es)] es)"
proof (induction es arbitrary: n)
  case Nil
  then show ?case by simp
next
  case (Cons e es)
  have a: "n + int (length (e # es)) = n + 1 + int (length es)" by simp
  have "[n + 1..n + int (length (e # es))] = (n + 1) # [n + 1 + 1..n + 1 + int (length es)]"
    unfolding a by (subst upto_rec1) simp_all
  then show ?case using Cons.IH [of "n + 1"] by (simp add: fun_upd_def)
qed

lemma stamp_drop: "drop k (stamp n es) = stamp (n + int k) (drop k es)"
proof (induction es arbitrary: n k)
  case Nil
  then show ?case by simp
next
  case (Cons e es)
  show ?case
  proof (cases k)
    case 0
    then show ?thesis by simp
  next
    case (Suc j)
    then show ?thesis using Cons.IH [of j "n + 1"] by (simp add: algebra_simps)
  qed
qed

lemma stamp_ids: "map (\<lambda>e. e ''id'') (stamp n es) = map (\<lambda>i. Some (JInt i)) [n + 1..n + int (length es)]"
proof (induction es arbitrary: n)
  case Nil
  then show ?case by simp
next
  case (Cons e es)
  have a: "n + int (length (e # es)) = n + 1 + int (length es)" by simp
  have "[n + 1..n + int (length (e # es))] = (n + 1) # [n + 1 + 1..n + 1 + int (length es)]"
    unfolding a by (subst upto_rec1) simp_all
  then show ?case using Cons.IH [of "n + 1"] by simp
qed

lemma last_n_short: "length xs \<le> n \<Longrightarrow> last_n n xs = xs"
  by (simp add: last_n_def)

lemma last_n_length: "length (last_n n xs) = min n (length xs)"
  by (simp add: last_n_def)

lemma last_n_append: "last_n n (last_n n xs @ ys) = last_n n (xs @ ys)"
proof (cases "length xs \<le> n")
  case True
  then show ?thesis by (simp add: last_n_short)
next
  case False
  then show ?thesis by (simp add: last_n_def ac_simps)
qed

lemma upto_strictly_increasing: "sorted_wrt (<) [i..j]" "distinct [i..j]"
  by (simp_all add: sorted_wrt_iff_nth_less)

subsection \<open>New alerts\<close>

lemma new_alert_well_formed:
  "well_formed e \<Longrightarrow> \<exists>a. new_alert draw (e(''id'' \<mapsto> v)) st = Inr a"
  by (auto simp: well_formed_def new_alert_def split: option.splits)

lemma new_alert_fresh:
  "new_alert draw e st = Inr a \<Longrightarrow>
     status a = ''New'' \<and> alert_id a = int (length (ALERT_HISTORY st)) + 1"
  by (auto simp: new_alert_def split: option.splits)

subsection \<open>The batch loop\<close>

lemma ingest_loop_step:
  "ingest_loop rnd i (e # rest) st ids =
     (let e' = e(''id'' \<mapsto> JInt (LAST_PACKET_ID st + 1));
          st1 = st\<lparr>LAST_PACKET_ID := LAST_PACKET_ID st + 1,
                   LIVE_PACKET_LOG := LIVE_PACKET_LOG st @ [e']\<rparr>
      in if fst (rnd i) < 0.5 then
           (case new_alert (rnd i) e' st1 of
              Inl x \<Rightarrow> (st1, Inl x)
            | Inr a \<Rightarrow>
                ingest_loop rnd (i + 1) rest (st1\<lparr>ALERT_HISTORY := ALERT_HISTORY st1 @ [a]\<rparr>)
                  (ids @ [LAST_PACKET_ID st + 1]))
         else ingest_loop rnd (i + 1) rest st1 (ids @ [LAST_PACKET_ID st + 1]))"
  by (simp add: Let_def split: sum.splits)

lemma upto_from_next: "[n + 1..n + 1 + int k] = (n + 1) # [n + 1 + 1..n + 1 + int k]"
  by (subst upto_rec1) simp_all

lemma ingest_loop_well_formed:
  assumes "\<forall>e\<in>set es. well_formed e"
  shows "\<exists>st' new.
           ingest_loop rnd i es st ids =
             (st', Inr (ids @ [LAST_PACKET_ID st + 1..LAST_PACKET_ID st + int (length es)])) \<and>
           LAST_PACKET_ID st' = LAST_PACKET_ID st + int (length es) \<and>
           LIVE_PACKET_LOG st' = LIVE_PACKET_LOG st @ stamp (LAST_PACKET_ID st) es \<and>
           ALERT_HISTORY st' = ALERT_HISTORY st @ new \<and> (\<forall>a\<in>set new. status a = ''New'')"
  using assms
proof (induction es arbitrary: st ids i)
  case Nil
  then show ?case by simp
next
  case (Cons e es)
  define L where "L = LAST_PACKET_ID st"
  define e' where "e' = e(''id'' \<mapsto> JInt (L + 1))"
  define st1 where "st1 = st\<lparr>LAST_PACKET_ID := L + 1, LIVE_PACKET_LOG := LIVE_PACKET_LOG st @ [e']\<rparr>"
  have wf: "well_formed e" and rest: "\<forall>x\<in>set es. well_formed x" using Cons.prems by simp_all
  have ids: "[L + 1..L + int (length (e # es))] = (L + 1) # [L + 1 + 1..L + 1 + int (length es)]"
    using upto_from_next [of L "length es"] by (simp add: add.assoc)
  have len: "L + int (length (e # es)) = L + 1 + int (length es)" by simp
  have target: "\<exists>st' new.
           ingest_loop rnd (i + 1) es st2 (ids @ [L + 1]) =
             (st', Inr (ids @ [L + 1..L + int (length (e # es))])) \<and>
           LAST_PACKET_ID st' = L + int (length (e # es)) \<and>
           LIVE_PACKET_LOG st' = LIVE_PACKET_LOG st @ stamp L (e # es) \<and>
           ALERT_HISTORY st' = ALERT_HISTORY st @ new \<and> (\<forall>a\<in>set new. status a = ''New'')"
    if l: "LAST_PACKET_ID st2 = L + 1" and g: "LIVE_PACKET_LOG st2 = LIVE_PACKET_LOG st @ [e']"
      and p: "ALERT_HISTORY st2 = ALERT_HISTORY st @ pre" and n: "\<forall>a\<in>set pre. status a = ''New''"
    for st2 pre
  proof -
    from Cons.IH [OF rest, of "i + 1" st2 "ids @ [L + 1]"] obtain st' new' where
      r: "ingest_loop rnd (i + 1) es st2 (ids @ [L + 1]) =
            (st', Inr ((ids @ [L + 1]) @ [L + 1 + 1..L + 1 + int (length es)]))"
      and r1: "LAST_PACKET_ID st' = L + 1 + int (length es)"
      and r2: "LIVE_PACKET_LOG st' = (LIVE_PACKET_LOG st @ [e']) @ stamp (L + 1) es"
      and r3: "ALERT_HISTORY st' = (ALERT_HISTORY st @ pre) @ new'"
      and r4: "\<forall>a\<in>set new'. status a = ''New''"
      unfolding l g p by blast
    have 1: "ingest_loop rnd (i + 1) es st2 (ids @ [L + 1]) =
             (st', Inr (ids @ [L + 1..L + int (length (e # es))]))"
      unfolding r ids by simp
    have 2: "LAST_PACKET_ID st' = L + int (length (e # es))" unfolding r1 len ..
    have 3: "LIVE_PACKET_LOG st' = LIVE_PACKET_LOG st @ stamp L (e # es)"
      unfolding r2 by (simp add: e'_def)
    have 4: "ALERT_HISTORY st' = ALERT_HISTORY st @ (pre @ new')" unfolding r3 by simp
    have 5: "\<forall>a\<in>set (pre @ new'). status a = ''New''" using n r4 by auto
    show ?thesis
      by (rule exI [of _ st'], rule exI [of _ "pre @ new'"]) (intro conjI 1 2 3 4 5)
  qed
  show ?case
  proof (cases "fst (rnd i) < 0.5")
    case False
    then have "ingest_loop rnd i (e # es) st ids = ingest_loop rnd (i + 1) es st1 (ids @ [L + 1])"
      unfolding ingest_loop_step by (simp add: Let_def st1_def e'_def L_def)
    then show ?thesis
      using target [of st1 "[]"] by (simp add: st1_def L_def)
  next
    case True
    from new_alert_well_formed [OF wf, of "rnd i" "JInt (L + 1)" st1] obtain a where
      a: "new_alert (rnd i) e' st1 = Inr a" unfolding e'_def by blast
    define st2 where "st2 = st1\<lparr>ALERT_HISTORY := ALERT_HISTORY st1 @ [a]\<rparr>"
    from True a have "ingest_loop rnd i (e # es) st ids = ingest_loop rnd (i + 1) es st2 (ids @ [L + 1])"
      unfolding ingest_loop_step by (simp add: Let_def st1_def st2_def e'_def L_def)
    moreover have "status a = ''New''" using new_alert_fresh [OF a] by simp
    ultimately show ?thesis
      using target [of st2 "[a]"] by (simp add: st2_def st1_def L_def)
  qed
qed

subsection \<open>One request\<close>

lemma ingest_packet_batch:
  assumes "logs data = Some es" and "\<forall>e\<in>set es. well_formed e"
  shows "fst (ingest_packet rnd data st) =
           Batch_ingested [LAST_PACKET_ID st + 1..LAST_PACKET_ID st + int (length es)] \<and>
         LAST_PACKET_ID (snd (ingest_packet rnd data st)) = LAST_PACKET_ID st + int (length es) \<and>
         LIVE_PACKET_LOG (snd (ingest_packet rnd data st)) =
           last_n MAX_LIVE_PACKETS (LIVE_PACKET_LOG st @ stamp (LAST_PACKET_ID st) es)"
proof -
  from ingest_loop_well_formed [OF assms(2), of rnd 0 st "[]"] obtain st' new where
    r: "ingest_loop rnd 0 es st [] =
          (st', Inr ([] @ [LAST_PACKET_ID st + 1..LAST_PACKET_ID st + int (length es)]))"
    and 1: "LAST_PACKET_ID st' = LAST_PACKET_ID st + int (length es)"
    and 2: "LIVE_PACKET_LOG st' = LIVE_PACKET_LOG st @ stamp (LAST_PACKET_ID st) es"
    by blast
  show ?thesis
    unfolding ingest_packet_def assms(1) by (simp add: r 1 2)
qed

lemma ingest_packet_single:
  assumes "logs data = None"
  shows "LAST_PACKET_ID (snd (ingest_packet rnd data st)) = LAST_PACKET_ID st + 1 \<and>
         LIVE_PACKET_LOG (snd (ingest_packet rnd data st)) =
           last_n MAX_LIVE_PACKETS (LIVE_PACKET_LOG st @ stamp (LAST_PACKET_ID st) [items data]) \<and>
         (well_formed (items data) \<longrightarrow>
            fst (ingest_packet rnd data st) = Packet_ingested (LAST_PACKET_ID st + 1))"
proof -
  define st1 where "st1 =
    st\<lparr>LAST_PACKET_ID := LAST_PACKET_ID st + 1,
       LIVE_PACKET_LOG := last_n MAX_LIVE_PACKETS
         (LIVE_PACKET_LOG st @ [(items data)(''id'' \<mapsto> JInt (LAST_PACKET_ID st + 1))])\<rparr>"
  define e' where "e' = (items data)(''id'' \<mapsto> JInt (LAST_PACKET_ID st + 1))"
  have unfold: "ingest_packet rnd data st =
      (if fst (rnd 0) < 0.5 then
         (case new_alert (rnd 0) e' st1 of
            Inl x \<Rightarrow> (Ingestion_failed x, st1)
          | Inr a \<Rightarrow> (Packet_ingested (LAST_PACKET_ID st + 1),
                       st1\<lparr>ALERT_HISTORY := ALERT_HISTORY st1 @ [a]\<rparr>))
       else (Packet_ingested (LAST_PACKET_ID st + 1), st1))"
    unfolding ingest_packet_def assms
    by (simp add: Let_def st1_def e'_def split: sum.splits)
  have wf: "\<exists>a. new_alert (rnd 0) e' st1 = Inr a" if "well_formed (items data)"
    using new_alert_well_formed [OF that] unfolding e'_def by blast
  show ?thesis
    unfolding unfold using wf
    by (auto simp: st1_def split: sum.splits)
qed

lemma ingest_packet_carries:
  assumes "carries data e" and "well_formed e"
  shows "LAST_PACKET_ID (snd (ingest_packet rnd data st)) = LAST_PACKET_ID st + 1 \<and>
         LIVE_PACKET_LOG (snd (ingest_packet rnd data st)) =
           last_n MAX_LIVE_PACKETS (LIVE_PACKET_LOG st @ stamp (LAST_PACKET_ID st) [e])"
proof (cases "logs data")
  case None
  with assms(1) have "items data = e" by (simp add: carries_def)
  with ingest_packet_single [OF None, of rnd st] show ?thesis by simp
next
  case (Some es)
  with assms(1) have es: "logs data = Some [e]" by (simp add: carries_def)
  have "\<forall>x\<in>set [e]. well_formed x" using assms(2) by simp
  from ingest_packet_batch [OF es this, of rnd st] show ?thesis by simp
qed

subsection \<open>Requests in sequence\<close>

lemma ingest_all_window:
  assumes "list_all2 carries bodies es" and "\<forall>e\<in>set es. well_formed e"
    and "length (LIVE_PACKET_LOG st) \<le> MAX_LIVE_PACKETS"
  shows "LAST_PACKET_ID (ingest_all rnds k bodies st) = LAST_PACKET_ID st + int (length es) \<and>
         LIVE_PACKET_LOG (ingest_all rnds k bodies st) =
           last_n MAX_LIVE_PACKETS (LIVE_PACKET_LOG st @ stamp (LAST_PACKET_ID st) es)"
  using assms
proof (induction bodies es arbitrary: st k rule: list_all2_induct)
  case Nil
  then show ?case by (simp add: last_n_short)
next
  case (Cons b bs e es)
  define st1 where "st1 = snd (ingest_packet (rnds k) b st)"
  have wf: "well_formed e" and rest: "\<forall>x\<in>set es. well_formed x" using Cons.prems by simp_all
  from ingest_packet_carries [OF Cons.hyps(1) wf, of "rnds k" st]
  have 1: "LAST_PACKET_ID st1 = LAST_PACKET_ID st + 1"
    and 2: "LIVE_PACKET_LOG st1 =
      last_n MAX_LIVE_PACKETS (LIVE_PACKET_LOG st @ stamp (LAST_PACKET_ID st) [e])"
    unfolding st1_def by simp_all
  have 3: "length (LIVE_PACKET_LOG st1) \<le> MAX_LIVE_PACKETS"
    unfolding 2 by (simp add: last_n_length)
  from Cons.IH [OF rest 3, of "k + 1"]
  have a: "LAST_PACKET_ID (ingest_all rnds (k + 1) bs st1) = LAST_PACKET_ID st1 + int (length es)"
    and b: "LIVE_PACKET_LOG (ingest_all rnds (k + 1) bs st1) =
      last_n MAX_LIVE_PACKETS (LIVE_PACKET_LOG st1 @ stamp (LAST_PACKET_ID st1) es)"
    by simp_all
  have c: "ingest_all rnds k (b # bs) st = ingest_all rnds (k + 1) bs st1"
    by (simp add: st1_def)
  have d: "last_n MAX_LIVE_PACKETS (LIVE_PACKET_LOG st1 @ stamp (LAST_PACKET_ID st1) es) =
           last_n MAX_LIVE_PACKETS (LIVE_PACKET_LOG st @ stamp (LAST_PACKET_ID st) (e # es))"
    unfolding 1 2 last_n_append by simp
  show ?case unfolding c a b d by (simp add: 1)
qed

subsection \<open>Alerts created by ingestion\<close>

lemma ingest_loop_alerts:
  "\<exists>new. ALERT_HISTORY (fst (ingest_loop rnd i es st ids)) = ALERT_HISTORY st @ new \<and>
         (\<forall>a\<in>set new. status a = ''New'')"
proof (induction es arbitrary: st ids i)
  case Nil
  then show ?case by simp
next
  case (Cons e es)
  define e' where "e' = e(''id'' \<mapsto> JInt (LAST_PACKET_ID st + 1))"
  define st1 where "st1 = st\<lparr>LAST_PACKET_ID := LAST_PACKET_ID st + 1,
                              LIVE_PACKET_LOG := LIVE_PACKET_LOG st @ [e']\<rparr>"
  have h1: "ALERT_HISTORY st1 = ALERT_HISTORY st" by (simp add: st1_def)
  show ?case
  proof (cases "fst (rnd i) < 0.5")
    case False
    then have "ingest_loop rnd i (e # es) st ids =
                 ingest_loop rnd (i + 1) es st1 (ids @ [LAST_PACKET_ID st + 1])"
      unfolding ingest_loop_step by (simp add: Let_def st1_def e'_def)
    then show ?thesis using Cons.IH [of "i + 1" st1 "ids @ [LAST_PACKET_ID st + 1]"] h1 by simp
  next
    case True
    show ?thesis
    proof (cases "new_alert (rnd i) e' st1")
      case (Inl x)
      with True have "ingest_loop rnd i (e # es) st ids = (st1, Inl x)"
        unfolding ingest_loop_step by (simp add: Let_def st1_def e'_def)
      then show ?thesis using h1 by simp
    next
      case (Inr a)
      define st2 where "st2 = st1\<lparr>ALERT_HISTORY := ALERT_HISTORY st1 @ [a]\<rparr>"
      from True Inr have r: "ingest_loop rnd i (e # es) st ids =
                 ingest_loop rnd (i + 1) es st2 (ids @ [LAST_PACKET_ID st + 1])"
        unfolding ingest_loop_step by (simp add: Let_def st1_def st2_def e'_def)
      have n: "status a = ''New''" using new_alert_fresh [OF Inr] by simp
      from Cons.IH [of "i + 1" st2 "ids @ [LAST_PACKET_ID st + 1]"] obtain new where
        1: "ALERT_HISTORY (fst (ingest_loop rnd (i + 1) es st2 (ids @ [LAST_PACKET_ID st + 1]))) =
              ALERT_HISTORY st2 @ new" and 2: "\<forall>a\<in>set new. status a = ''New''" by blast
      have 3: "ALERT_HISTORY (fst (ingest_loop rnd i (e # es) st ids)) = ALERT_HISTORY st @ (a # new)"
        unfolding r 1 by (simp add: st2_def h1)
      have 4: "\<forall>x\<in>set (a # new). status x = ''New''" using n 2 by simp
      show ?thesis by (rule exI [of _ "a # new"]) (intro conjI 3 4)
    qed
  qed
qed

lemma alert_ids_append:
  assumes "alert_ids_in_order st" and "new_alert draw e st1 = Inr a"
    and "ALERT_HISTORY st1 = ALERT_HISTORY st"
  shows "alert_ids_in_order (st1\<lparr>ALERT_HISTORY := ALERT_HISTORY st1 @ [a]\<rparr>)"
proof -
  have id: "alert_id a = int (length (ALERT_HISTORY st)) + 1"
    using new_alert_fresh [OF assms(2)] assms(3) by simp
  have "[1..int (length (ALERT_HISTORY st)) + 1] =
        [1..int (length (ALERT_HISTORY st))] @ [int (length (ALERT_HISTORY st)) + 1]"
    by (subst upto_rec2) simp_all
  then show ?thesis
    using assms(1) id by (simp add: alert_ids_in_order_def assms(3) add.commute)
qed

lemma ingest_loop_alert_ids:
  "alert_ids_in_order st \<Longrightarrow> alert_ids_in_order (fst (ingest_loop rnd i es st ids))"
proof (induction es arbitrary: st ids i)
  case Nil
  then show ?case by simp
next
  case (Cons e es)
  define e' where "e' = e(''id'' \<mapsto> JInt (LAST_PACKET_ID st + 1))"
  define st1 where "st1 = st\<lparr>LAST_PACKET_ID := LAST_PACKET_ID st + 1,
                              LIVE_PACKET_LOG := LIVE_PACKET_LOG st @ [e']\<rparr>"
  have h1: "ALERT_HISTORY st1 = ALERT_HISTORY st" by (simp add: st1_def)
  have o1: "alert_ids_in_order st1" using Cons.prems by (simp add: alert_ids_in_order_def h1)
  show ?case
  proof (cases "fst (rnd i) < 0.5")
    case False
    then have "ingest_loop rnd i (e # es) st ids =
                 ingest_loop rnd (i + 1) es st1 (ids @ [LAST_PACKET_ID st + 1])"
      unfolding ingest_loop_step by (simp add: Let_def st1_def e'_def)
    then show ?thesis using Cons.IH [OF o1] by simp
  next
    case True
    show ?thesis
    proof (cases "new_alert (rnd i) e' st1")
      case (Inl x)
      with True have "ingest_loop rnd i (e # es) st ids = (st1, Inl x)"
        unfolding ingest_loop_step by (simp add: Let_def st1_def e'_def)
      then show ?thesis using o1 by simp
    next
      case (Inr a)
      define st2 where "st2 = st1\<lparr>ALERT_HISTORY := ALERT_HISTORY st1 @ [a]\<rparr>"
      from True Inr have r: "ingest_loop rnd i (e # es) st ids =
                 ingest_loop rnd (i + 1) es st2 (ids @ [LAST_PACKET_ID st + 1])"
        unfolding ingest_loop_step by (simp add: Let_def st1_def st2_def e'_def)
      have "alert_ids_in_order st2"
        unfolding st2_def using alert_ids_append [OF Cons.prems Inr h1] .
      from Cons.IH [OF this] show ?thesis unfolding r .
    qed
  qed
qed

lemma ingest_packet_alerts:
  "\<exists>new. ALERT_HISTORY (snd (ingest_packet rnd data st)) = ALERT_HISTORY st @ new \<and>
         (\<forall>a\<in>set new. status a = ''New'')"
proof (cases "logs data")
  case (Some es)
  from ingest_loop_alerts [of rnd 0 es st "[]"] obtain new where
    1: "ALERT_HISTORY (fst (ingest_loop rnd 0 es st [])) = ALERT_HISTORY st @ new"
    and 2: "\<forall>a\<in>set new. status a = ''New''" by blast
  have "ALERT_HISTORY (snd (ingest_packet rnd data st)) =
        ALERT_HISTORY (fst (ingest_loop rnd 0 es st []))"
    unfolding ingest_packet_def Some
    by (cases "ingest_loop rnd 0 es st []") (simp split: sum.splits)
  with 1 2 show ?thesis by auto
next
  case None
  define e' where "e' = (items data)(''id'' \<mapsto> JInt (LAST_PACKET_ID st + 1))"
  define st1 where "st1 =
    st\<lparr>LAST_PACKET_ID := LAST_PACKET_ID st + 1,
       LIVE_PACKET_LOG := last_n MAX_LIVE_PACKETS (LIVE_PACKET_LOG st @ [e'])\<rparr>"
  have unfold: "ingest_packet rnd data st =
      (if fst (rnd 0) < 0.5 then
         (case new_alert (rnd 0) e' st1 of
            Inl x \<Rightarrow> (Ingestion_failed x, st1)
          | Inr a \<Rightarrow> (Packet_ingested (LAST_PACKET_ID st + 1),
                       st1\<lparr>ALERT_HISTORY := ALERT_HISTORY st1 @ [a]\<rparr>))
       else (Packet_ingested (LAST_PACKET_ID st + 1), st1))"
    unfolding ingest_packet_def None
    by (simp add: Let_def st1_def e'_def split: sum.splits)
  have h1: "ALERT_HISTORY st1 = ALERT_HISTORY st" by (simp add: st1_def)
  show ?thesis
  proof (cases "fst (rnd 0) < 0.5")
    case False
    then show ?thesis unfolding unfold by (simp add: h1)
  next
    case True
    show ?thesis
    proof (cases "new_alert (rnd 0) e' st1")
      case (Inl x)
      with True show ?thesis unfolding unfold by (simp add: h1)
    next
      case (Inr a)
      have "status a = ''New''" using new_alert_fresh [OF Inr] by simp
      with True Inr show ?thesis unfolding unfold by (simp add: h1)
    qed
  qed
qed

lemma ingest_packet_alert_ids:
  assumes "alert_ids_in_order st"
  shows "alert_ids_in_order (snd (ingest_packet rnd data st))"
proof (cases "logs data")
  case (Some es)
  have "ALERT_HISTORY (snd (ingest_packet rnd data st)) =
        ALERT_HISTORY (fst (ingest_loop rnd 0 es st []))"
    unfolding ingest_packet_def Some
    by (cases "ingest_loop rnd 0 es st []") (simp split: sum.splits)
  with ingest_loop_alert_ids [OF assms, of rnd 0 es "[]"] show ?thesis
    by (simp add: alert_ids_in_order_def)
next
  case None
  define e' where "e' = (items data)(''id'' \<mapsto> JInt (LAST_PACKET_ID st + 1))"
  define st1 where "st1 =
    st\<lparr>LAST_PACKET_ID := LAST_PACKET_ID st + 1,
       LIVE_PACKET_LOG := last_n MAX_LIVE_PACKETS (LIVE_PACKET_LOG st @ [e'])\<rparr>"
  have unfold: "ingest_packet rnd data st =
      (if fst (rnd 0) < 0.5 then
         (case new_alert (rnd 0) e' st1 of
            Inl x \<Rightarrow> (Ingestion_failed x, st1)
          | Inr a \<Rightarrow> (Packet_ingested (LAST_PACKET_ID st + 1),
                       st1\<lparr>ALERT_HISTORY := ALERT_HISTORY st1 @ [a]\<rparr>))
       else (Packet_ingested (LAST_PACKET_ID st + 1), st1))"
    unfolding ingest_packet_def None
    by (simp add: Let_def st1_def e'_def split: sum.splits)
  have h1: "ALERT_HISTORY st1 = ALERT_HISTORY st" by (simp add: st1_def)
  have o1: "alert_ids_in_order st1" using assms by (simp add: alert_ids_in_order_def h1)
  show ?thesis
  proof (cases "fst (rnd 0) < 0.5")
    case False
    then show ?thesis unfolding unfold using o1 by simp
  next
    case True
    show ?thesis
    proof (cases "new_alert (rnd 0) e' st1")
      case (Inl x)
      with True show ?thesis unfolding unfold using o1 by simp
    next
      case (Inr a)
      with True alert_ids_append [OF assms Inr h1] show ?thesis unfolding unfold by simp
    qed
  qed
qed

lemma alert_ids_distinct:
  "alert_ids_in_order st \<Longrightarrow> distinct (map alert_id (ALERT_HISTORY st))"
  by (simp add: alert_ids_in_order_def)

subsection \<open>Marking an alert\<close>

lemma mark_processed_length: "length (mark_processed aid as) = length as"
  by (induction as) simp_all

lemma mark_processed_ids: "map alert_id (mark_processed aid as) = map alert_id as"
  by (induction as) simp_all

lemma mark_processed_no_match:
  "\<forall>a\<in>set as. \<not> int_eq_jval (alert_id a) aid \<Longrightarrow> mark_processed aid as = as"
  by (induction as) simp_all

lemma mark_processed_idem:
  "mark_processed aid (mark_processed aid as) = mark_processed aid as"
  by (induction as) simp_all

lemma mark_processed_distinct:
  "distinct (map alert_id as) \<Longrightarrow>
     mark_processed (JInt k) as =
       map (\<lambda>a. if alert_id a = k then a\<lparr>status := ''Processed''\<rparr> else a) as"
proof (induction as)
  case Nil
  then show ?case by simp
next
  case (Cons a as)
  show ?case
  proof (cases "alert_id a = k")
    case True
    with Cons.prems have "k \<notin> alert_id ` set as" by simp
    then have "\<forall>x\<in>set as. alert_id x \<noteq> k" by blast
    then have "map (\<lambda>a. if alert_id a = k then a\<lparr>status := ''Processed''\<rparr> else a) as = as"
      by (induction as) simp_all
    with True show ?thesis by (simp add: int_eq_jval_def)
  next
    case False
    with Cons show ?thesis by (simp add: int_eq_jval_def)
  qed
qed

lemma handle_alert_action_alert_ids:
  "alert_ids_in_order st \<Longrightarrow> alert_ids_in_order (handle_alert_action data st)"
  by (simp add: alert_ids_in_order_def handle_alert_action_def mark_processed_ids
      mark_processed_length)

lemma alert_ids_empty: "alert_ids_in_order empty_store"
  by (simp add: alert_ids_in_order_def empty_store_def)

section \<open>Claims about the store\<close>

text \<open>
  C4.  For log entries that have the keys an alert reads (\<open>timestamp\<close> and \<open>src_ip\<close>):
  a batch request answers with the ids that follow the last id, one per record in
  arrival order, strictly increasing, and keeps the last 50 entries of the log extended
  by the records under those ids; on the empty store the ids are \<open>1..K\<close>; and after 60
  requests of a single record each, the log holds exactly the records 11 to 60 in order,
  under the ids \<open>11..60\<close>.
\<close>

theorem ingestion_ids_and_window:
  assumes "\<forall>e\<in>set es. well_formed e"
  shows "(logs data = Some es \<longrightarrow>
            fst (ingest_packet rnd data st) =
              Batch_ingested [LAST_PACKET_ID st + 1..LAST_PACKET_ID st + int (length es)] \<and>
            sorted_wrt (<) [LAST_PACKET_ID st + 1..LAST_PACKET_ID st + int (length es)] \<and>
            LAST_PACKET_ID (snd (ingest_packet rnd data st)) = LAST_PACKET_ID st + int (length es) \<and>
            LIVE_PACKET_LOG (snd (ingest_packet rnd data st)) =
              last_n 50 (LIVE_PACKET_LOG st @
                map (\<lambda>(i, e). e(''id'' \<mapsto> JInt i))
                  (zip [LAST_PACKET_ID st + 1..LAST_PACKET_ID st + int (length es)] es)) \<and>
            fst (ingest_packet rnd data empty_store) = Batch_ingested [1..int (length es)]) \<and>
         (length es = 60 \<and> list_all2 carries bodies es \<longrightarrow>
            LIVE_PACKET_LOG (ingest_all rnds 0 bodies empty_store) =
              map (\<lambda>(i, e). e(''id'' \<mapsto> JInt i)) (zip [11..60] (drop 10 es)) \<and>
            map (\<lambda>e. e ''id'') (LIVE_PACKET_LOG (ingest_all rnds 0 bodies empty_store)) =
              map (\<lambda>i. Some (JInt i)) [11..60] \<and>
            length (LIVE_PACKET_LOG (ingest_all rnds 0 bodies empty_store)) = 50 \<and>
            LAST_PACKET_ID (ingest_all rnds 0 bodies empty_store) = 60)"
proof (intro conjI impI)
  assume d: "logs data = Some es"
  note b = ingest_packet_batch [OF d assms]
  show "fst (ingest_packet rnd data st) =
          Batch_ingested [LAST_PACKET_ID st + 1..LAST_PACKET_ID st + int (length es)]"
    using b [of rnd st] by simp
  show "sorted_wrt (<) [LAST_PACKET_ID st + 1..LAST_PACKET_ID st + int (length es)]"
    by (rule upto_strictly_increasing)
  show "LAST_PACKET_ID (snd (ingest_packet rnd data st)) = LAST_PACKET_ID st + int (length es)"
    using b [of rnd st] by simp
  show "LIVE_PACKET_LOG (snd (ingest_packet rnd data st)) =
          last_n 50 (LIVE_PACKET_LOG st @
            map (\<lambda>(i, e). e(''id'' \<mapsto> JInt i))
              (zip [LAST_PACKET_ID st + 1..LAST_PACKET_ID st + int (length es)] es))"
    using b [of rnd st] by (simp add: MAX_LIVE_PACKETS_def stamp_upto [symmetric])
  show "fst (ingest_packet rnd data empty_store) = Batch_ingested [1..int (length es)]"
    using b [of rnd empty_store] by (simp add: empty_store_def)
next
  assume h: "length es = 60 \<and> list_all2 carries bodies es"
  define final where "final = ingest_all rnds 0 bodies empty_store"
  have e: "length (LIVE_PACKET_LOG empty_store) \<le> MAX_LIVE_PACKETS"
    "LAST_PACKET_ID empty_store = 0" "LIVE_PACKET_LOG empty_store = []"
    by (simp_all add: empty_store_def)
  from h have len: "length es = 60" and c: "list_all2 carries bodies es" by simp_all
  from ingest_all_window [OF c assms e(1), of rnds 0]
  have 1: "LAST_PACKET_ID final = 60"
    and 2: "LIVE_PACKET_LOG final = last_n MAX_LIVE_PACKETS (stamp 0 es)"
    unfolding final_def e by (simp_all add: len)
  have 3: "last_n MAX_LIVE_PACKETS (stamp 0 es) = stamp 10 (drop 10 es)"
    using stamp_drop [of 10 0 es] by (simp add: last_n_def MAX_LIVE_PACKETS_def stamp_length len)
  have l: "length (drop 10 es) = 50" by (simp add: len)
  have 4: "LIVE_PACKET_LOG final = stamp 10 (drop 10 es)" unfolding 2 3 ..
  have b1: "(10::int) + 1 = 11" by simp
  have b2: "(10::int) + int (length (drop 10 es)) = 60" by (simp add: len)
  show "LIVE_PACKET_LOG (ingest_all rnds 0 bodies empty_store) =
          map (\<lambda>(i, e). e(''id'' \<mapsto> JInt i)) (zip [11..60] (drop 10 es))"
    unfolding final_def [symmetric] 4 stamp_upto [of 10 "drop 10 es"] b1 b2 ..
  show "map (\<lambda>e. e ''id'') (LIVE_PACKET_LOG (ingest_all rnds 0 bodies empty_store)) =
          map (\<lambda>i. Some (JInt i)) [11..60]"
    unfolding final_def [symmetric] 4 stamp_ids [of 10 "drop 10 es"] b1 b2 ..
  show "length (LIVE_PACKET_LOG (ingest_all rnds 0 bodies empty_store)) = 50"
    unfolding final_def [symmetric] 4 by (simp only: stamp_length l)
  show "LAST_PACKET_ID (ingest_all rnds 0 bodies empty_store) = 60"
    unfolding final_def [symmetric] by (rule 1)
qed

lemma udp_entry_well_formed: "well_formed udp_entry"
  by (simp add: well_formed_def udp_entry_def)

theorem ingestion_ids_and_window_witness:
  "fst (ingest_packet always_alert \<lparr>logs = Some (replicate 60 udp_entry), items = Map.empty\<rparr>
     empty_store) = Batch_ingested [1..60] \<and>
   LIVE_PACKET_LOG (ingest_all (\<lambda>k. never_alert) 0
       (replicate 60 \<lparr>logs = Some [udp_entry], items = Map.empty\<rparr>) empty_store) =
     map (\<lambda>(i, e). e(''id'' \<mapsto> JInt i)) (zip [11..60] (replicate 50 udp_entry)) \<and>
   map (\<lambda>e. e ''id'') (LIVE_PACKET_LOG (ingest_all (\<lambda>k. never_alert) 0
       (replicate 60 \<lparr>logs = Some [udp_entry], items = Map.empty\<rparr>) empty_store)) =
     map (\<lambda>i. Some (JInt i)) [11..60]"
proof -
  have wf: "\<forall>e\<in>set (replicate 60 udp_entry). well_formed e"
    by (simp add: udp_entry_well_formed)
  have c: "list_all2 carries (replicate 60 \<lparr>logs = Some [udp_entry], items = Map.empty\<rparr>)
             (replicate 60 udp_entry)"
    by (simp add: list_all2_conv_all_nth carries_def)
  have d: "logs \<lparr>logs = Some (replicate 60 udp_entry), items = Map.empty\<rparr> =
             Some (replicate 60 udp_entry)" by simp
  have l: "length (replicate 60 udp_entry) = 60" by simp
  have il: "int (length (replicate 60 udp_entry)) = 60" by simp
  have dr: "drop 10 (replicate 60 udp_entry) = replicate 50 udp_entry" by simp
  note T = ingestion_ids_and_window [OF wf,
      of "\<lparr>logs = Some (replicate 60 udp_entry), items = Map.empty\<rparr>" always_alert empty_store
         "replicate 60 \<lparr>logs = Some [udp_entry], items = Map.empty\<rparr>" "\<lambda>k. never_alert"]
  note A = T [THEN conjunct1, THEN mp, OF d, unfolded il]
  note B = T [THEN conjunct2, THEN mp, OF conjI [OF l c], unfolded dr]
  have 1: "fst (ingest_packet always_alert
      \<lparr>logs = Some (replicate 60 udp_entry), items = Map.empty\<rparr> empty_store) =
      Batch_ingested [1..60]"
    using A by (elim conjE)
  show ?thesis
    using B by (elim conjE) (intro conjI 1)
qed

text \<open>
  C8.  Every alert that ingestion creates has status New.  With distinct alert ids, an
  action on the id \<open>k\<close> sets the status of the alert \<open>k\<close> to Processed and leaves every
  other alert and the rest of the store as they were.  Repeating the action changes
  nothing more, and an action whose id matches no alert changes nothing at all.  The
  handler is a total function on dict bodies: it has no error outcome.
\<close>

theorem alert_status_update:
  "(new_alert draw e st = Inr a \<longrightarrow> status a = ''New'') \<and>
   (\<exists>new. ALERT_HISTORY (snd (ingest_packet rnd body st)) = ALERT_HISTORY st @ new \<and>
          (\<forall>a\<in>set new. status a = ''New'')) \<and>
   (distinct (map alert_id (ALERT_HISTORY st)) \<and> data ''alert_id'' = Some (JInt k) \<longrightarrow>
      handle_alert_action data st =
        st\<lparr>ALERT_HISTORY :=
             map (\<lambda>a. if alert_id a = k then a\<lparr>status := ''Processed''\<rparr> else a)
               (ALERT_HISTORY st)\<rparr>) \<and>
   handle_alert_action data (handle_alert_action data st) = handle_alert_action data st \<and>
   ((\<forall>a\<in>set (ALERT_HISTORY st).
       \<not> int_eq_jval (alert_id a) (case data ''alert_id'' of None \<Rightarrow> JNone | Some v \<Rightarrow> v)) \<longrightarrow>
      handle_alert_action data st = st)"
proof (intro conjI impI)
  show "status a = ''New''" if "new_alert draw e st = Inr a"
    using new_alert_fresh [OF that] by simp
  show "\<exists>new. ALERT_HISTORY (snd (ingest_packet rnd body st)) = ALERT_HISTORY st @ new \<and>
          (\<forall>a\<in>set new. status a = ''New'')"
    by (rule ingest_packet_alerts)
  show "handle_alert_action data st =
        st\<lparr>ALERT_HISTORY :=
             map (\<lambda>a. if alert_id a = k then a\<lparr>status := ''Processed''\<rparr> else a)
               (ALERT_HISTORY st)\<rparr>"
    if "distinct (map alert_id (ALERT_HISTORY st)) \<and> data ''alert_id'' = Some (JInt k)"
    using that by (simp add: handle_alert_action_def mark_processed_distinct)
  show "handle_alert_action data (handle_alert_action data st) = handle_alert_action data st"
    by (simp add: handle_alert_action_def mark_processed_idem)
  show "handle_alert_action data st = st"
    if "\<forall>a\<in>set (ALERT_HISTORY st).
          \<not> int_eq_jval (alert_id a) (case data ''alert_id'' of None \<Rightarrow> JNone | Some v \<Rightarrow> v)"
    using mark_processed_no_match [OF that] by (simp add: handle_alert_action_def)
qed

theorem alert_status_update_witness:
  "map status (ALERT_HISTORY (handle_alert_action [''alert_id'' \<mapsto> JInt 1] two_alerts)) =
     [''Processed'', ''New''] \<and>
   handle_alert_action [''alert_id'' \<mapsto> JInt 1]
     (handle_alert_action [''alert_id'' \<mapsto> JInt 1] two_alerts) =
     handle_alert_action [''alert_id'' \<mapsto> JInt 1] two_alerts \<and>
   handle_alert_action [''alert_id'' \<mapsto> JInt 99] two_alerts = two_alerts"
proof -
  have d: "distinct (map alert_id (ALERT_HISTORY two_alerts))" by (simp add: two_alerts_def)
  have k: "[''alert_id'' \<mapsto> JInt 1] ''alert_id'' = Some (JInt 1)" by simp
  have n: "\<forall>a\<in>set (ALERT_HISTORY two_alerts).
       \<not> int_eq_jval (alert_id a)
           (case [''alert_id'' \<mapsto> JInt 99] ''alert_id'' of None \<Rightarrow> JNone | Some v \<Rightarrow> v)"
    by (simp add: two_alerts_def int_eq_jval_def)
  note T = alert_status_update [where st = two_alerts and data = "[''alert_id'' \<mapsto> JInt 1]" and k = 1]
  note U = alert_status_update [where st = two_alerts and data = "[''alert_id'' \<mapsto> JInt 99]"]
  note 1 = T [THEN conjunct2, THEN conjunct2, THEN conjunct1, THEN mp, OF conjI [OF d k]]
  note 2 = T [THEN conjunct2, THEN conjunct2, THEN conjunct2, THEN conjunct1]
  note 3 = U [THEN conjunct2, THEN conjunct2, THEN conjunct2, THEN conjunct2, THEN mp, OF n]
  have 4: "map status (ALERT_HISTORY (handle_alert_action [''alert_id'' \<mapsto> JInt 1] two_alerts)) =
     [''Processed'', ''New'']"
    unfolding 1 by (simp add: two_alerts_def)
  show ?thesis by (intro conjI 4 2 3)
qed

text \<open>
  C10.  The alert history that is read is the sublist, in list order, of the alerts whose
  status is New: an alert is in it exactly when it is in the alert list with status New,
  so no Processed alert is.  Marking the alert \<open>k\<close> as Processed keeps it in the alert
  list (same length, same ids) and removes it from the history that is read.
\<close>

theorem alert_history_shows_new_only:
  "get_alert_history st = filter (\<lambda>a. status a = ''New'') (ALERT_HISTORY st) \<and>
   subseq (get_alert_history st) (ALERT_HISTORY st) \<and>
   (\<forall>a. a \<in> set (get_alert_history st) \<longleftrightarrow> a \<in> set (ALERT_HISTORY st) \<and> status a = ''New'') \<and>
   (\<forall>a\<in>set (get_alert_history st). status a \<noteq> ''Processed'') \<and>
   length (ALERT_HISTORY (handle_alert_action data st)) = length (ALERT_HISTORY st) \<and>
   map alert_id (ALERT_HISTORY (handle_alert_action data st)) = map alert_id (ALERT_HISTORY st) \<and>
   (distinct (map alert_id (ALERT_HISTORY st)) \<and> data ''alert_id'' = Some (JInt k) \<longrightarrow>
      k \<notin> alert_id ` set (get_alert_history (handle_alert_action data st)))"
proof (intro conjI impI)
  show "get_alert_history st = filter (\<lambda>a. status a = ''New'') (ALERT_HISTORY st)"
    by (simp add: get_alert_history_def)
  show "subseq (get_alert_history st) (ALERT_HISTORY st)"
    by (simp add: get_alert_history_def)
  show "\<forall>a. a \<in> set (get_alert_history st) \<longleftrightarrow> a \<in> set (ALERT_HISTORY st) \<and> status a = ''New''"
    by (simp add: get_alert_history_def)
  show "\<forall>a\<in>set (get_alert_history st). status a \<noteq> ''Processed''"
    by (simp add: get_alert_history_def)
  show "length (ALERT_HISTORY (handle_alert_action data st)) = length (ALERT_HISTORY st)"
    by (simp add: handle_alert_action_def mark_processed_length)
  show "map alert_id (ALERT_HISTORY (handle_alert_action data st)) = map alert_id (ALERT_HISTORY st)"
    by (simp add: handle_alert_action_def mark_processed_ids)
  show "k \<notin> alert_id ` set (get_alert_history (handle_alert_action data st))"
    if h: "distinct (map alert_id (ALERT_HISTORY st)) \<and> data ''alert_id'' = Some (JInt k)"
  proof
    define f :: "alert \<Rightarrow> alert" where "f = (\<lambda>a. if alert_id a = k then a\<lparr>status := ''Processed''\<rparr> else a)"
    have eq: "get_alert_history (handle_alert_action data st) =
              filter (\<lambda>a. status a = ''New'') (map f (ALERT_HISTORY st))"
      using h unfolding f_def
      by (simp add: handle_alert_action_def mark_processed_distinct get_alert_history_def)
    assume "k \<in> alert_id ` set (get_alert_history (handle_alert_action data st))"
    then obtain x where x: "x \<in> set (get_alert_history (handle_alert_action data st))"
      and xk: "alert_id x = k" by blast
    from x have new: "status x = ''New''" and "x \<in> set (map f (ALERT_HISTORY st))"
      unfolding eq by simp_all
    then obtain a where a: "x = f a" by auto
    show False
    proof (cases "alert_id a = k")
      case True
      then have "status x = ''Processed''" unfolding a f_def by simp
      with new show False by simp
    next
      case False
      then have "x = a" unfolding a f_def by simp
      with xk False show False by simp
    qed
  qed
qed

theorem alert_history_shows_new_only_witness:
  "map alert_id (get_alert_history two_alerts) = [1, 2] \<and>
   map alert_id (get_alert_history (handle_alert_action [''alert_id'' \<mapsto> JInt 1] two_alerts)) = [2] \<and>
   map alert_id (ALERT_HISTORY (handle_alert_action [''alert_id'' \<mapsto> JInt 1] two_alerts)) = [1, 2]"
proof -
  have d: "distinct (map alert_id (ALERT_HISTORY two_alerts))" by (simp add: two_alerts_def)
  have h: "ALERT_HISTORY (handle_alert_action [''alert_id'' \<mapsto> JInt 1] two_alerts) =
           map (\<lambda>a. if alert_id a = 1 then a\<lparr>status := ''Processed''\<rparr> else a)
             (ALERT_HISTORY two_alerts)"
    using d by (simp add: handle_alert_action_def mark_processed_distinct)
  note T = alert_history_shows_new_only [of two_alerts "[''alert_id'' \<mapsto> JInt 1]" 1]
  note U = alert_history_shows_new_only
    [of "handle_alert_action [''alert_id'' \<mapsto> JInt 1] two_alerts" "[''alert_id'' \<mapsto> JInt 1]" 1]
  note 1 = T [THEN conjunct1]
  note 2 = U [THEN conjunct1]
  note 3 = T [THEN conjunct2, THEN conjunct2, THEN conjunct2, THEN conjunct2, THEN conjunct2,
              THEN conjunct1]
  have a: "map alert_id (get_alert_history two_alerts) = [1, 2]"
    unfolding 1 by (simp add: two_alerts_def)
  have b: "map alert_id (get_alert_history (handle_alert_action [''alert_id'' \<mapsto> JInt 1] two_alerts)) = [2]"
    unfolding 2 h by (simp add: two_alerts_def)
  have c: "map alert_id (ALERT_HISTORY (handle_alert_action [''alert_id'' \<mapsto> JInt 1] two_alerts)) = [1, 2]"
    unfolding 3 by (simp add: two_alerts_def)
  show ?thesis by (intro conjI a b c)
qed

end
